theory Spec2Isabelle
  imports Complex_Main
begin

section \<open>Python containers and numbers\<close>

text \<open>
  The program is \<^verbatim>\<open>Projet_MapReduce/recherche.py\<close>. Its Python values are embedded as
  follows.
  \<^item> A \<^verbatim>\<open>dict\<close> is an association list with pairwise different keys, in insertion
    order (the order in which Python iterates over it). Assigning to a key that is present
    replaces the value in place, assigning to an absent key appends the entry.
  \<^item> A \<^verbatim>\<open>set\<close> is a list without repetitions; the order stands for the order in which
    Python happens to iterate over the set; the general statements below speak of the
    elements only, through \<open>set\<close>.
  \<^item> A \<^verbatim>\<open>float\<close> is a real number: rounding is not modelled, every statement about a score
    is a statement about the exact value of the expression the program evaluates.
  \<^item> An exception is a value of \<open>py_error\<close>, returned on the left of a sum.
\<close>

type_synonym ('k, 'v) dict = "('k \<times> 'v) list"

type_synonym page = string

datatype py_error = ZeroDivisionError | KeyError

text \<open>\<^verbatim>\<open>d[k] = v\<close>\<close>

primrec dict_set :: "('k, 'v) dict \<Rightarrow> 'k \<Rightarrow> 'v \<Rightarrow> ('k, 'v) dict" where
  "dict_set [] k v = [(k, v)]"
| "dict_set (e # d) k v = (if fst e = k then (k, v) # d else e # dict_set d k v)"

text \<open>\<^verbatim>\<open>d.get(k, default)\<close>\<close>

definition dict_get :: "('k, 'v) dict \<Rightarrow> 'k \<Rightarrow> 'v \<Rightarrow> 'v" where
  "dict_get d k dflt = (case map_of d k of None \<Rightarrow> dflt | Some v \<Rightarrow> v)"

text \<open>
  \<^verbatim>\<open>d[k] += v\<close> on a \<^verbatim>\<open>defaultdict(float)\<close>: a missing key is first created with the
  value \<^verbatim>\<open>0.0\<close>.
\<close>

definition defaultdict_add :: "('k, real) dict \<Rightarrow> 'k \<Rightarrow> real \<Rightarrow> ('k, real) dict" where
  "defaultdict_add d k v = dict_set d k (dict_get d k 0 + v)"

text \<open>\<^verbatim>\<open>s.add(x)\<close> and \<^verbatim>\<open>s.update(xs)\<close> on a set.\<close>

definition set_add :: "'a list \<Rightarrow> 'a \<Rightarrow> 'a list" where
  "set_add s x = (if x \<in> set s then s else s @ [x])"

definition set_update :: "'a list \<Rightarrow> 'a list \<Rightarrow> 'a list" where
  "set_update s xs = foldl set_add s xs"

section \<open>Graph builder\<close>

text \<open>
  \<^verbatim>\<open>read_html_files\<close> walks over the files that \<^verbatim>\<open>glob\<close> returns and asks BeautifulSoup for
  the text of the body and for the \<^verbatim>\<open>href\<close> of every anchor. File system and parser are
  outside the program; one \<open>html_file\<close> is what they deliver for one file: the base name,
  the text of the body (empty when there is no body) and the list of \<^verbatim>\<open>href\<close> values in
  document order.
\<close>

record html_file =
  page_name :: page
  body_text :: string
  hrefs :: "page list"

record corpus =
  pages :: "(page, page list) dict"
  page_contents :: "(page, string) dict"
  all_links :: "page list"

definition read_file :: "corpus \<Rightarrow> html_file \<Rightarrow> corpus" where
  "read_file c f =
     \<lparr> pages = dict_set (pages c) (page_name f) (hrefs f),
       page_contents = dict_set (page_contents c) (page_name f) (body_text f),
       all_links = set_update (all_links c) (hrefs f) \<rparr>"

definition read_html_files :: "html_file list \<Rightarrow> corpus" where
  "read_html_files files =
     foldl read_file \<lparr> pages = [], page_contents = [], all_links = [] \<rparr> files"

section \<open>Rank engine\<close>

text \<open>
  \<^verbatim>\<open>initialize_page_ranks\<close>: the dict comprehension over \<^verbatim>\<open>all_links\<close>, then the two nested
  loops that add every link target that is still missing.
\<close>

definition init_link :: "nat \<Rightarrow> (page, real) dict \<Rightarrow> page \<Rightarrow> (page, real) dict" where
  "init_link num_pages page_ranks link =
     (if map_of page_ranks link = None
      then dict_set page_ranks link (1 / real num_pages)
      else page_ranks)"

definition initialize_page_ranks ::
  "(page, page list) dict \<Rightarrow> page list \<Rightarrow> (page, real) dict" where
  "initialize_page_ranks pgs links_set =
     (let num_pages = (if links_set \<noteq> [] then length links_set else 1);
          page_ranks = foldl (\<lambda>d p. dict_set d p (1 / real num_pages)) [] links_set
      in foldl (\<lambda>d links. foldl (init_link num_pages) d links) page_ranks (map snd pgs))"

text \<open>
  \<^verbatim>\<open>map_page_rank\<close>: the inner loop over the links of one page, and the outer loop over the
  items of \<^verbatim>\<open>pages\<close> with its guard. \<^verbatim>\<open>page_ranks[page]\<close> is read only under the guard
  \<^verbatim>\<open>page in page_ranks\<close>, so it cannot raise.
\<close>

definition map_links ::
  "(page, real) dict \<Rightarrow> real \<Rightarrow> page list \<Rightarrow> (page, real) dict" where
  "map_links contributions share links =
     foldl (\<lambda>c link. defaultdict_add c link share) contributions links"

definition map_page ::
  "(page, real) dict \<Rightarrow> (page, real) dict \<Rightarrow> page \<times> page list \<Rightarrow> (page, real) dict" where
  "map_page page_ranks contributions item =
     (let num_links = length (snd item)
      in if num_links > 0 \<and> map_of page_ranks (fst item) \<noteq> None
         then map_links contributions
                (the (map_of page_ranks (fst item)) / real num_links) (snd item)
         else contributions)"

definition map_page_rank ::
  "(page, page list) dict \<Rightarrow> (page, real) dict \<Rightarrow> (page, real) dict" where
  "map_page_rank pgs page_ranks = foldl (map_page page_ranks) [] pgs"

text \<open>
  \<^verbatim>\<open>reduce_page_rank\<close>. The comprehension divides by \<^verbatim>\<open>num_pages\<close> once for every key of
  \<^verbatim>\<open>contributions\<close>, so it raises \<^verbatim>\<open>ZeroDivisionError\<close> when \<^verbatim>\<open>num_pages\<close> is 0 and there is
  a key. The loop reads \<^verbatim>\<open>new_ranks[page]\<close>, which raises \<^verbatim>\<open>KeyError\<close> on a missing key.
\<close>

fun reduce_loop ::
  "(page, real) dict \<Rightarrow> real \<Rightarrow> (page, real) dict \<Rightarrow> py_error + (page, real) dict" where
  "reduce_loop new_ranks damping_factor [] = Inr new_ranks"
| "reduce_loop new_ranks damping_factor ((p, contribution) # rest) =
     (case map_of new_ranks p of
        None \<Rightarrow> Inl KeyError
      | Some r \<Rightarrow>
          reduce_loop (dict_set new_ranks p (r + damping_factor * contribution))
            damping_factor rest)"

definition reduce_page_rank ::
  "(page, real) dict \<Rightarrow> real \<Rightarrow> nat \<Rightarrow> py_error + (page, real) dict" where
  "reduce_page_rank contributions damping_factor num_pages =
     (if contributions \<noteq> [] \<and> num_pages = 0 then Inl ZeroDivisionError
      else
        let new_ranks =
              foldl (\<lambda>d p. dict_set d p ((1 - damping_factor) / real num_pages)) []
                (map fst contributions)
        in reduce_loop new_ranks damping_factor contributions)"

text \<open>
  \<^verbatim>\<open>calculate_page_rank\<close>: \<^verbatim>\<open>range(iterations)\<close> is empty for a negative argument, so the
  loop runs \<open>nat iterations\<close> times. \<^verbatim>\<open>reduce_page_rank\<close> is called without a damping
  factor, so with the default \<^verbatim>\<open>damping_factor=0.85\<close> of its signature.
\<close>

definition default_damping_factor :: real where
  "default_damping_factor = 0.85"

fun iterate_ranks ::
  "nat \<Rightarrow> (page, page list) dict \<Rightarrow> nat \<Rightarrow> (page, real) dict \<Rightarrow> py_error + (page, real) dict"
  where
  "iterate_ranks 0 pgs num_pages page_ranks = Inr page_ranks"
| "iterate_ranks (Suc k) pgs num_pages page_ranks =
     (case reduce_page_rank (map_page_rank pgs page_ranks) default_damping_factor num_pages of
        Inl e \<Rightarrow> Inl e
      | Inr new_ranks \<Rightarrow> iterate_ranks k pgs num_pages new_ranks)"

definition calculate_page_rank ::
  "(page, page list) dict \<Rightarrow> page list \<Rightarrow> int \<Rightarrow> py_error + (page, real) dict" where
  "calculate_page_rank pgs links_set iterations =
     (let page_ranks = initialize_page_ranks pgs links_set;
          num_pages = length page_ranks
      in iterate_ranks (nat iterations) pgs num_pages page_ranks)"

section \<open>Query engine\<close>

text \<open>
  \<^verbatim>\<open>query.split()\<close> cuts the query at runs of whitespace and returns no empty word. A
  character of a \<open>string\<close> stands for a code point below 256; \<open>isspace\<close> lists the
  code points in that range that Python takes for whitespace.
\<close>

definition isspace :: "char \<Rightarrow> bool" where
  "isspace c \<longleftrightarrow>
     c \<in> set [CHR 0x09, CHR 0x0A, CHR 0x0B, CHR 0x0C, CHR 0x0D, CHR 0x1C, CHR 0x1D,
               CHR 0x1E, CHR 0x1F, CHR 0x20, CHR 0x85, CHR 0xA0]"

fun split_from :: "string \<Rightarrow> string \<Rightarrow> string list" where
  "split_from word [] = (if word = [] then [] else [word])"
| "split_from word (c # cs) =
     (if isspace c
      then (if word = [] then split_from [] cs else word # split_from [] cs)
      else split_from (word @ [c]) cs)"

definition split :: "string \<Rightarrow> string list" where
  "split s = split_from [] s"

text \<open>
  \<^verbatim>\<open>search\<close>. The normalisation \<^verbatim>\<open>unidecode(term.lower())\<close> comes from a library outside the
  program and is the parameter \<open>normalise\<close>. \<^verbatim>\<open>sorted(..., key=..., reverse=True)\<close> is a
  stable sort into descending order of the key: entries with equal keys keep their order.
  That is the stable ascending sort on the negated key.
\<close>

definition search_postings ::
  "(page, real) dict \<Rightarrow> (page, real) dict \<Rightarrow> page list \<Rightarrow> (page, real) dict" where
  "search_postings page_ranks results postings =
     foldl (\<lambda>res p. defaultdict_add res p (dict_get page_ranks p 0)) results postings"

definition search_term ::
  "(string, page list) dict \<Rightarrow> (page, real) dict \<Rightarrow> (page, real) dict \<Rightarrow> string
     \<Rightarrow> (page, real) dict" where
  "search_term inverted_index page_ranks results term =
     (case map_of inverted_index term of
        None \<Rightarrow> results
      | Some postings \<Rightarrow> search_postings page_ranks results postings)"

definition search_results ::
  "(string \<Rightarrow> string) \<Rightarrow> string \<Rightarrow> (string, page list) dict \<Rightarrow> (page, real) dict
     \<Rightarrow> (page, real) dict" where
  "search_results normalise query inverted_index page_ranks =
     (let terms = map normalise (split query)
      in foldl (search_term inverted_index page_ranks) [] terms)"

definition search ::
  "(string \<Rightarrow> string) \<Rightarrow> string \<Rightarrow> (string, page list) dict \<Rightarrow> (page, real) dict
     \<Rightarrow> (page \<times> real) list" where
  "search normalise query inverted_index page_ranks =
     (let results = search_results normalise query inverted_index page_ranks
      in sort_key (\<lambda>x. - snd x) (filter (\<lambda>x. snd x > 0) results))"

text \<open>
  A normalisation for concrete queries: on words of ASCII letters and digits \<^verbatim>\<open>unidecode\<close>
  changes nothing and \<^verbatim>\<open>lower\<close> maps \<^verbatim>\<open>A\<close> to \<^verbatim>\<open>Z\<close> onto \<^verbatim>\<open>a\<close> to \<^verbatim>\<open>z\<close>.
\<close>

definition lower_char :: "char \<Rightarrow> char" where
  "lower_char c =
     (if of_char c \<ge> (65::nat) \<and> of_char c \<le> (90::nat)
      then char_of (of_char c + (32::nat)) else c)"

definition normalize_ascii :: "string \<Rightarrow> string" where
  "normalize_ascii term = map lower_char term"

section \<open>Notions used in the statements\<close>

text \<open>
  The definitions of this section are not part of the program. They name what the
  statements below talk about.

  A document \<open>contributes\<close> when it passes the guard of the map phase: it has a link and it
  has an entry in the rank table. Its \<open>contribution\<close> to a target is its share, score
  divided by number of links, once for every occurrence of the target among its links.
  The \<open>receivers\<close> are the targets of the contributing documents, the \<open>link_targets\<close> the
  targets of all documents.
\<close>

definition contributes :: "(page, real) dict \<Rightarrow> page \<times> page list \<Rightarrow> bool" where
  "contributes page_ranks item \<longleftrightarrow> snd item \<noteq> [] \<and> map_of page_ranks (fst item) \<noteq> None"

definition contribution :: "(page, real) dict \<Rightarrow> page \<Rightarrow> page \<times> page list \<Rightarrow> real" where
  "contribution page_ranks target item =
     (if contributes page_ranks item
      then real (count_list (snd item) target)
             * (the (map_of page_ranks (fst item)) / real (length (snd item)))
      else 0)"

definition receivers :: "(page, page list) dict \<Rightarrow> (page, real) dict \<Rightarrow> page set" where
  "receivers pgs page_ranks = set (concat (map snd (filter (contributes page_ranks) pgs)))"

definition link_targets :: "(page, page list) dict \<Rightarrow> page set" where
  "link_targets pgs = set (concat (map snd pgs))"

text \<open>
  The score of every node of the initial table, and two properties of the values of a
  dictionary.
\<close>

definition initial_share :: "page list \<Rightarrow> real" where
  "initial_share links_set = 1 / real (if links_set = [] then 1 else length links_set)"

definition all_values :: "('k, 'v) dict \<Rightarrow> 'v \<Rightarrow> bool" where
  "all_values d v \<longleftrightarrow> (\<forall>e\<in>set d. snd e = v)"

definition nonneg :: "('k, real) dict \<Rightarrow> bool" where
  "nonneg d \<longleftrightarrow> (\<forall>e\<in>set d. 0 \<le> snd e)"

text \<open>
  What one iteration of \<^verbatim>\<open>calculate_page_rank\<close> computes when nothing is raised: every
  contribution is replaced by the new score, in place. That the program computes this is
  the lemma \<open>reduce_step\<close> below.
\<close>

definition rank_step ::
  "(page, page list) dict \<Rightarrow> nat \<Rightarrow> (page, real) dict \<Rightarrow> (page, real) dict" where
  "rank_step pgs n page_ranks =
     map (\<lambda>e. (fst e, (1 - default_damping_factor) / real n + default_damping_factor * snd e))
       (map_page_rank pgs page_ranks)"

text \<open>
  What one query term adds to the total of a document, and the total over the terms of the
  query as the program has them: \<open>query_score\<close> takes every term as often as the query
  repeats it. \<open>distinct_query_score\<close> follows the words of the spec instead, which sums over
  the distinct terms of the query. The \<open>matched_documents\<close> are the documents in the posting
  list of a query term.
\<close>

definition term_score ::
  "(string, page list) dict \<Rightarrow> (page, real) dict \<Rightarrow> page \<Rightarrow> string \<Rightarrow> real" where
  "term_score inverted_index page_ranks p term =
     (case map_of inverted_index term of
        None \<Rightarrow> 0
      | Some postings \<Rightarrow> real (count_list postings p) * dict_get page_ranks p 0)"

definition query_score ::
  "(string \<Rightarrow> string) \<Rightarrow> string \<Rightarrow> (string, page list) dict \<Rightarrow> (page, real) dict \<Rightarrow> page
     \<Rightarrow> real" where
  "query_score normalise query inverted_index page_ranks p =
     (\<Sum>term\<leftarrow>map normalise (split query). term_score inverted_index page_ranks p term)"

definition distinct_query_score ::
  "(string \<Rightarrow> string) \<Rightarrow> string \<Rightarrow> (string, page list) dict \<Rightarrow> (page, real) dict \<Rightarrow> page
     \<Rightarrow> real" where
  "distinct_query_score normalise query inverted_index page_ranks p =
     (\<Sum>term\<leftarrow>remdups (map normalise (split query)).
        term_score inverted_index page_ranks p term)"

definition matched_documents ::
  "(string \<Rightarrow> string) \<Rightarrow> string \<Rightarrow> (string, page list) dict \<Rightarrow> page set" where
  "matched_documents normalise query inverted_index =
     set (concat (map (\<lambda>term. case map_of inverted_index term of None \<Rightarrow> [] | Some ps \<Rightarrow> ps)
                      (map normalise (split query))))"

section \<open>Dictionaries\<close>

lemma map_of_dict_set: "map_of (dict_set d k v) = (map_of d)(k \<mapsto> v)"
  by (induction d) (auto simp: fun_eq_iff)

lemma keys_dict_set:
  "map fst (dict_set d k v) = (if k \<in> fst ` set d then map fst d else map fst d @ [k])"
  by (induction d) auto

lemma dom_dict_set: "fst ` set (dict_set d k v) = insert k (fst ` set d)"
  by (induction d) auto

lemma distinct_dict_set: "distinct (map fst d) \<Longrightarrow> distinct (map fst (dict_set d k v))"
  by (simp add: keys_dict_set)

lemma map_of_None_iff: "map_of d k = None \<longleftrightarrow> k \<notin> fst ` set d"
  by (simp add: map_of_eq_None_iff)

lemma dict_get_set: "dict_get (dict_set d k v) k' dflt = (if k' = k then v else dict_get d k' dflt)"
  by (simp add: dict_get_def map_of_dict_set)

lemma dict_get_add:
  "dict_get (defaultdict_add d k v) k' 0 = dict_get d k' 0 + (if k' = k then v else 0)"
  by (simp add: defaultdict_add_def dict_get_set)

lemma dom_add: "fst ` set (defaultdict_add d k v) = insert k (fst ` set d)"
  by (simp add: defaultdict_add_def dom_dict_set)

lemma distinct_add: "distinct (map fst d) \<Longrightarrow> distinct (map fst (defaultdict_add d k v))"
  by (simp add: defaultdict_add_def distinct_dict_set)

section \<open>The map phase\<close>

text \<open>
  What the loops of \<^verbatim>\<open>map_page_rank\<close> accumulate for one target, which targets get an entry,
  and that the keys of the result are pairwise different.
\<close>

lemma dict_get_map_links:
  "dict_get (map_links c share links) t 0 = dict_get c t 0 + real (count_list links t) * share"
  unfolding map_links_def
  by (induction links arbitrary: c) (auto simp: dict_get_add algebra_simps)

lemma dom_map_links: "fst ` set (map_links c share links) = fst ` set c \<union> set links"
  unfolding map_links_def
  by (induction links arbitrary: c) (auto simp: dom_add)

lemma distinct_map_links:
  "distinct (map fst c) \<Longrightarrow> distinct (map fst (map_links c share links))"
  unfolding map_links_def
  by (induction links arbitrary: c) (auto simp: distinct_add)

lemma dict_get_map_page:
  "dict_get (map_page pr c item) t 0 = dict_get c t 0 + contribution pr t item"
  by (simp add: map_page_def contribution_def contributes_def Let_def dict_get_map_links)

lemma dom_map_page:
  "fst ` set (map_page pr c item) = fst ` set c \<union> (if contributes pr item then set (snd item) else {})"
  by (simp add: map_page_def contributes_def Let_def dom_map_links)

lemma distinct_map_page: "distinct (map fst c) \<Longrightarrow> distinct (map fst (map_page pr c item))"
  by (simp add: map_page_def Let_def distinct_map_links)

lemma dict_get_foldl_map_page:
  "dict_get (foldl (map_page pr) c pgs) t 0 = dict_get c t 0 + (\<Sum>item\<leftarrow>pgs. contribution pr t item)"
  by (induction pgs arbitrary: c) (auto simp: dict_get_map_page)

lemma dom_foldl_map_page:
  "fst ` set (foldl (map_page pr) c pgs) = fst ` set c \<union> receivers pgs pr"
  by (induction pgs arbitrary: c) (auto simp: dom_map_page receivers_def)

lemma distinct_foldl_map_page:
  "distinct (map fst c) \<Longrightarrow> distinct (map fst (foldl (map_page pr) c pgs))"
  by (induction pgs arbitrary: c) (auto simp: distinct_map_page)

lemma dom_map_page_rank: "fst ` set (map_page_rank pgs pr) = receivers pgs pr"
  by (simp add: map_page_rank_def dom_foldl_map_page)

lemma distinct_map_page_rank: "distinct (map fst (map_page_rank pgs pr))"
  by (simp add: map_page_rank_def distinct_foldl_map_page)

lemma dict_get_map_page_rank:
  "dict_get (map_page_rank pgs pr) t 0 = (\<Sum>item\<leftarrow>pgs. contribution pr t item)"
  using dict_get_foldl_map_page[of pr "[]" pgs t] by (simp add: map_page_rank_def dict_get_def)

lemma map_of_map_page_rank:
  "map_of (map_page_rank pgs pr) t =
     (if t \<in> receivers pgs pr then Some (\<Sum>item\<leftarrow>pgs. contribution pr t item) else None)"
proof (cases "t \<in> receivers pgs pr")
  case True
  then obtain c where c: "map_of (map_page_rank pgs pr) t = Some c"
    using dom_map_page_rank[of pgs pr] by (metis map_of_None_iff not_Some_eq)
  then have "dict_get (map_page_rank pgs pr) t 0 = c" by (simp add: dict_get_def)
  with c True show ?thesis by (simp add: dict_get_map_page_rank)
next
  case False
  then show ?thesis using dom_map_page_rank[of pgs pr] by (simp add: map_of_None_iff)
qed

section \<open>The reduce phase\<close>

text \<open>
  On a dictionary of contributions \<^verbatim>\<open>reduce_page_rank\<close> raises nothing, unless it has to
  divide by zero, and maps every entry to its new score in place.
\<close>

lemma foldl_dict_set_const:
  "distinct (map fst d @ ks) \<Longrightarrow>
   foldl (\<lambda>d p. dict_set d p v) d ks = d @ map (\<lambda>p. (p, v)) ks"
proof (induction ks arbitrary: d)
  case Nil
  then show ?case by simp
next
  case (Cons k ks)
  have "dict_set d k v = d @ [(k, v)]"
    using Cons.prems by (induction d) auto
  moreover have "distinct (map fst (d @ [(k, v)]) @ ks)"
    using Cons.prems by auto
  ultimately show ?case using Cons.IH[of "d @ [(k, v)]"] by simp
qed

lemma dict_set_middle:
  "k \<notin> fst ` set done \<Longrightarrow> dict_set (done @ (k, v) # rest) k w = done @ (k, w) # rest"
  by (induction "done") auto

lemma map_of_middle:
  "k \<notin> fst ` set done \<Longrightarrow> map_of (done @ (k, v) # rest) k = Some v"
  by (induction "done") auto

lemma reduce_loop_closed:
  "distinct (map fst done @ map fst rest) \<Longrightarrow>
   reduce_loop (done @ map (\<lambda>e. (fst e, base)) rest) d rest
     = Inr (done @ map (\<lambda>e. (fst e, base + d * snd e)) rest)"
proof (induction rest arbitrary: "done")
  case Nil
  then show ?case by simp
next
  case (Cons e rest)
  obtain p x where e: "e = (p, x)" by (cases e)
  have notin: "p \<notin> fst ` set done" using Cons.prems e by auto
  have d': "distinct (map fst (done @ [(p, base + d * x)]) @ map fst rest)"
    using Cons.prems e by auto
  show ?case
    using Cons.IH[OF d'] notin e
    by (simp add: map_of_middle dict_set_middle del: map_of_append)
qed

lemma reduce_page_rank_closed:
  assumes "distinct (map fst c)" and "c = [] \<or> n > 0"
  shows "reduce_page_rank c d n = Inr (map (\<lambda>e. (fst e, (1 - d) / real n + d * snd e)) c)"
proof -
  have "foldl (\<lambda>d' p. dict_set d' p ((1 - d) / real n)) [] (map fst c)
          = map (\<lambda>e. (fst e, (1 - d) / real n)) c"
    using assms(1) foldl_dict_set_const[of "[]" "map fst c" "(1 - d) / real n"]
    by (simp add: comp_def)
  then show ?thesis
    using assms reduce_loop_closed[of "[]" c "(1 - d) / real n" d]
    by (auto simp: reduce_page_rank_def)
qed

section \<open>The initial table\<close>

lemma all_values_dict_set: "all_values d v \<Longrightarrow> all_values (dict_set d k v) v"
  unfolding all_values_def by (induction d) auto

lemma all_values_comprehension:
  "all_values d v \<Longrightarrow> all_values (foldl (\<lambda>d p. dict_set d p v) d ks) v"
  by (induction ks arbitrary: d) (simp_all add: all_values_dict_set)

lemma dom_comprehension:
  "fst ` set (foldl (\<lambda>d p. dict_set d p v) d ks) = fst ` set d \<union> set ks"
  by (induction ks arbitrary: d) (simp_all add: dom_dict_set)

lemma distinct_comprehension:
  "distinct (map fst d) \<Longrightarrow> distinct (map fst (foldl (\<lambda>d p. dict_set d p v) d ks))"
  by (induction ks arbitrary: d) (simp_all add: distinct_dict_set)

lemma all_values_init_link:
  "all_values d (1 / real n) \<Longrightarrow> all_values (init_link n d k) (1 / real n)"
  by (simp add: init_link_def all_values_dict_set)

lemma dom_init_link: "fst ` set (init_link n d k) = insert k (fst ` set d)"
  by (auto simp: init_link_def dom_dict_set map_of_None_iff)

lemma distinct_init_link:
  "distinct (map fst d) \<Longrightarrow> distinct (map fst (init_link n d k))"
  by (simp add: init_link_def distinct_dict_set)

lemma all_values_init_links:
  "all_values d (1 / real n) \<Longrightarrow> all_values (foldl (init_link n) d ks) (1 / real n)"
  by (induction ks arbitrary: d) (simp_all add: all_values_init_link)

lemma dom_init_links: "fst ` set (foldl (init_link n) d ks) = fst ` set d \<union> set ks"
  by (induction ks arbitrary: d) (simp_all add: dom_init_link)

lemma distinct_init_links:
  "distinct (map fst d) \<Longrightarrow> distinct (map fst (foldl (init_link n) d ks))"
  by (induction ks arbitrary: d) (simp_all add: distinct_init_link)

lemma all_values_init_pages:
  "all_values d (1 / real n) \<Longrightarrow>
   all_values (foldl (\<lambda>d links. foldl (init_link n) d links) d ls) (1 / real n)"
  by (induction ls arbitrary: d) (simp_all add: all_values_init_links)

lemma dom_init_pages:
  "fst ` set (foldl (\<lambda>d links. foldl (init_link n) d links) d ls)
     = fst ` set d \<union> \<Union> (set ` set ls)"
  by (induction ls arbitrary: d) (simp_all add: dom_init_links Un_assoc)

lemma distinct_init_pages:
  "distinct (map fst d) \<Longrightarrow>
   distinct (map fst (foldl (\<lambda>d links. foldl (init_link n) d links) d ls))"
  by (induction ls arbitrary: d) (simp_all add: distinct_init_links)

lemma dom_initialize:
  "fst ` set (initialize_page_ranks pgs ls) = set ls \<union> link_targets pgs"
  by (simp add: initialize_page_ranks_def Let_def dom_init_pages dom_comprehension
      link_targets_def)

lemma distinct_initialize: "distinct (map fst (initialize_page_ranks pgs ls))"
  by (simp add: initialize_page_ranks_def Let_def distinct_init_pages distinct_comprehension)

lemma all_values_initialize:
  "all_values (initialize_page_ranks pgs ls) (initial_share ls)"
proof -
  let ?n = "if ls \<noteq> [] then length ls else 1"
  have "all_values [] (1 / real ?n)" by (simp add: all_values_def)
  then have "all_values (foldl (\<lambda>d p. dict_set d p (1 / real ?n)) [] ls) (1 / real ?n)"
    by (rule all_values_comprehension)
  then have "all_values (foldl (\<lambda>d links. foldl (init_link ?n) d links)
      (foldl (\<lambda>d p. dict_set d p (1 / real ?n)) [] ls) (map snd pgs)) (1 / real ?n)"
    by (rule all_values_init_pages)
  moreover have "initial_share ls = 1 / real ?n"
    by (simp add: initial_share_def)
  ultimately show ?thesis
    by (simp only: initialize_page_ranks_def Let_def)
qed

lemma map_of_all_values:
  "all_values d v \<Longrightarrow> map_of d k = (if k \<in> fst ` set d then Some v else None)"
  unfolding all_values_def by (induction d) auto

lemma map_of_initialize:
  "map_of (initialize_page_ranks pgs ls) p =
     (if p \<in> set ls \<union> link_targets pgs then Some (initial_share ls) else None)"
  using map_of_all_values[OF all_values_initialize, of pgs ls p]
  by (simp only: dom_initialize)

section \<open>Iterations\<close>

text \<open>
  One iteration is \<open>rank_step\<close>; \<^verbatim>\<open>calculate_page_rank\<close> applies it \<open>nat iterations\<close> times to
  the initial table and never raises: contributions exist only when the graph has a link,
  and then the initial table is not empty.
\<close>

lemma receivers_iff:
  "t \<in> receivers pgs pr \<longleftrightarrow> (\<exists>item\<in>set pgs. fst item \<in> fst ` set pr \<and> t \<in> set (snd item))"
  by (force simp: receivers_def contributes_def map_of_None_iff)

lemma receivers_targets: "receivers pgs pr \<subseteq> link_targets pgs"
  by (auto simp: receivers_def link_targets_def)

lemma receivers_mono:
  "fst ` set pr \<subseteq> fst ` set pr' \<Longrightarrow> receivers pgs pr \<subseteq> receivers pgs pr'"
  unfolding receivers_iff subset_iff by blast

lemma contributions_need_nodes:
  assumes "map_page_rank pgs pr \<noteq> []"
  shows "0 < length (initialize_page_ranks pgs ls)"
proof -
  have "fst ` set (map_page_rank pgs pr) \<noteq> {}" using assms by simp
  then have "link_targets pgs \<noteq> {}"
    using receivers_targets[of pgs pr] by (auto simp: dom_map_page_rank)
  then have "fst ` set (initialize_page_ranks pgs ls) \<noteq> {}"
    by (simp add: dom_initialize)
  then show ?thesis by auto
qed

lemma reduce_step:
  "reduce_page_rank (map_page_rank pgs pr) default_damping_factor (length (initialize_page_ranks pgs ls))
     = Inr (rank_step pgs (length (initialize_page_ranks pgs ls)) pr)"
  unfolding rank_step_def
proof (rule reduce_page_rank_closed)
  show "distinct (map fst (map_page_rank pgs pr))" by (rule distinct_map_page_rank)
  show "map_page_rank pgs pr = [] \<or> 0 < length (initialize_page_ranks pgs ls)"
    using contributions_need_nodes[of pgs pr ls] by blast
qed

lemma dom_rank_step: "fst ` set (rank_step pgs n pr) = receivers pgs pr"
  using dom_map_page_rank[of pgs pr] by (simp add: rank_step_def image_image)

lemma map_of_map_value:
  "map_of (map (\<lambda>e. (fst e, f (snd e))) d) k = map_option f (map_of d k)"
  by (induction d) auto

lemma map_of_rank_step:
  "map_of (rank_step pgs n pr) t =
     map_option (\<lambda>c. (1 - default_damping_factor) / real n + default_damping_factor * c) (map_of (map_page_rank pgs pr) t)"
  unfolding rank_step_def by (rule map_of_map_value)

lemma iterate_ranks_closed:
  "iterate_ranks k pgs (length (initialize_page_ranks pgs ls)) pr
     = Inr ((rank_step pgs (length (initialize_page_ranks pgs ls)) ^^ k) pr)"
proof (induction k arbitrary: pr)
  case 0
  then show ?case by simp
next
  case (Suc k)
  show ?case
    by (simp add: reduce_step Suc.IH funpow_swap1)
qed

lemma calculate_page_rank_closed:
  "calculate_page_rank pgs ls k
     = Inr ((rank_step pgs (length (initialize_page_ranks pgs ls)) ^^ nat k)
              (initialize_page_ranks pgs ls))"
  by (simp add: calculate_page_rank_def Let_def iterate_ranks_closed)

lemma calculate_page_rank_Suc:
  "calculate_page_rank pgs ls (int k + 1)
     = Inr (rank_step pgs (length (initialize_page_ranks pgs ls))
              ((rank_step pgs (length (initialize_page_ranks pgs ls)) ^^ k)
                 (initialize_page_ranks pgs ls)))"
proof -
  have "nat (int k + 1) = Suc k" by simp
  then show ?thesis by (simp only: calculate_page_rank_closed funpow.simps o_apply)
qed

lemma reduce_phase_default:
  "\<exists>prev new.
     calculate_page_rank pgs ls (int k) = Inr prev
     \<and> reduce_page_rank (map_page_rank pgs prev) default_damping_factor
          (length (initialize_page_ranks pgs ls)) = Inr new
     \<and> calculate_page_rank pgs ls (int k + 1) = Inr new
     \<and> fst ` set new = fst ` set (map_page_rank pgs prev)
     \<and> (\<forall>t. map_of new t =
          (case map_of (map_page_rank pgs prev) t of
             None \<Rightarrow> None
           | Some c \<Rightarrow> Some ((1 - default_damping_factor) / real (length (initialize_page_ranks pgs ls))
                          + default_damping_factor * c)))"
proof -
  let ?n = "length (initialize_page_ranks pgs ls)"
  let ?prev = "(rank_step pgs ?n ^^ k) (initialize_page_ranks pgs ls)"
  let ?new = "rank_step pgs ?n ?prev"
  have a: "calculate_page_rank pgs ls (int k) = Inr ?prev"
    by (simp add: calculate_page_rank_closed)
  have b: "reduce_page_rank (map_page_rank pgs ?prev) default_damping_factor ?n = Inr ?new"
    by (rule reduce_step)
  have c: "calculate_page_rank pgs ls (int k + 1) = Inr ?new"
    by (rule calculate_page_rank_Suc)
  have d: "fst ` set ?new = fst ` set (map_page_rank pgs ?prev)"
    by (simp only: dom_rank_step dom_map_page_rank)
  have e: "\<forall>t. map_of ?new t =
          (case map_of (map_page_rank pgs ?prev) t of
             None \<Rightarrow> None
           | Some c \<Rightarrow> Some ((1 - default_damping_factor) / real ?n + default_damping_factor * c))"
    by (simp add: map_of_rank_step split: option.split)
  from a b c d e show ?thesis by blast
qed

lemma dom_funpow_decreasing:
  "fst ` set ((rank_step pgs n ^^ Suc k) (initialize_page_ranks pgs ls))
     \<subseteq> fst ` set ((rank_step pgs n ^^ k) (initialize_page_ranks pgs ls))"
proof (induction k)
  case 0
  have "receivers pgs (initialize_page_ranks pgs ls) \<subseteq> set ls \<union> link_targets pgs"
    using receivers_targets[of pgs "initialize_page_ranks pgs ls"] by blast
  then show ?case by (simp add: dom_rank_step dom_initialize)
next
  case (Suc k)
  then show ?case
    by (simp only: funpow.simps o_apply dom_rank_step receivers_mono)
qed

lemma nonneg_initialize: "nonneg (initialize_page_ranks pgs ls)"
  using all_values_initialize[of pgs ls]
  by (auto simp: nonneg_def all_values_def initial_share_def)

lemma contribution_nonneg:
  assumes "nonneg pr"
  shows "0 \<le> contribution pr t item"
proof (cases "contributes pr item")
  case True
  then obtain r where r: "map_of pr (fst item) = Some r"
    by (auto simp: contributes_def)
  then have "(fst item, r) \<in> set pr" by (rule map_of_SomeD)
  then have "0 \<le> r" using assms by (auto simp: nonneg_def)
  then show ?thesis using r by (simp add: contribution_def)
next
  case False
  then show ?thesis by (simp add: contribution_def)
qed

lemma nonneg_map_page_rank:
  assumes "nonneg pr"
  shows "nonneg (map_page_rank pgs pr)"
  unfolding nonneg_def
proof
  fix e
  assume e: "e \<in> set (map_page_rank pgs pr)"
  then have "map_of (map_page_rank pgs pr) (fst e) = Some (snd e)"
    using distinct_map_page_rank[of pgs pr] by simp
  then have "snd e = (\<Sum>item\<leftarrow>pgs. contribution pr (fst e) item)"
    by (simp add: map_of_map_page_rank split: if_splits)
  moreover have "0 \<le> (\<Sum>item\<leftarrow>pgs. contribution pr (fst e) item)"
    by (rule sum_list_nonneg) (auto simp: contribution_nonneg[OF assms])
  ultimately show "0 \<le> snd e" by simp
qed

lemma nonneg_rank_step:
  assumes "nonneg pr"
  shows "nonneg (rank_step pgs n pr)"
proof -
  have "\<And>c. 0 \<le> c \<Longrightarrow> 0 \<le> (1 - default_damping_factor) / real n + default_damping_factor * c"
    by (simp add: default_damping_factor_def)
  then show ?thesis
    using nonneg_map_page_rank[OF assms, of pgs]
    by (auto simp: nonneg_def rank_step_def)
qed

lemma nonneg_funpow: "nonneg pr \<Longrightarrow> nonneg ((rank_step pgs n ^^ k) pr)"
  by (induction k) (simp_all add: nonneg_rank_step)

lemma self_link_step:
  "rank_step [(a, [a])] (Suc 0) [(a, 1)] = [(a, 1)]"
  by (simp add: rank_step_def map_page_rank_def map_page_def map_links_def
      defaultdict_add_def dict_get_def default_damping_factor_def)

lemma self_link_funpow: "(rank_step [(a, [a])] (Suc 0) ^^ k) [(a, 1)] = [(a, 1)]"
  by (induction k) (simp_all add: self_link_step)

lemma self_link_initialize: "initialize_page_ranks [(a, [a])] [a] = [(a, 1)]"
  by (simp add: initialize_page_ranks_def init_link_def)

section \<open>The graph builder\<close>

lemma set_set_add: "set (set_add s x) = insert x (set s)"
  by (auto simp: set_add_def)

lemma distinct_set_add: "distinct s \<Longrightarrow> distinct (set_add s x)"
  by (simp add: set_add_def)

lemma set_set_update: "set (set_update s xs) = set s \<union> set xs"
  unfolding set_update_def by (induction xs arbitrary: s) (simp_all add: set_set_add)

lemma distinct_set_update: "distinct s \<Longrightarrow> distinct (set_update s xs)"
  unfolding set_update_def by (induction xs arbitrary: s) (simp_all add: distinct_set_add)

lemma all_links_foldl:
  "set (all_links (foldl read_file c files)) = set (all_links c) \<union> set (concat (map hrefs files))"
  by (induction files arbitrary: c) (simp_all add: read_file_def set_set_update Un_assoc)

lemma distinct_all_links_foldl:
  "distinct (all_links c) \<Longrightarrow> distinct (all_links (foldl read_file c files))"
  by (induction files arbitrary: c) (simp_all add: read_file_def distinct_set_update)

section \<open>The query engine\<close>

lemma dict_get_search_postings:
  "dict_get (search_postings pr res ps) p 0
     = dict_get res p 0 + real (count_list ps p) * dict_get pr p 0"
  unfolding search_postings_def
  by (induction ps arbitrary: res) (auto simp: dict_get_add algebra_simps)

lemma dom_search_postings: "fst ` set (search_postings pr res ps) = fst ` set res \<union> set ps"
  unfolding search_postings_def
  by (induction ps arbitrary: res) (auto simp: dom_add)

lemma distinct_search_postings:
  "distinct (map fst res) \<Longrightarrow> distinct (map fst (search_postings pr res ps))"
  unfolding search_postings_def
  by (induction ps arbitrary: res) (simp_all add: distinct_add)

lemma dict_get_search_term:
  "dict_get (search_term idx pr res t) p 0 = dict_get res p 0 + term_score idx pr p t"
  by (simp add: search_term_def term_score_def dict_get_search_postings split: option.split)

lemma dom_search_term:
  "fst ` set (search_term idx pr res t)
     = fst ` set res \<union> set (case map_of idx t of None \<Rightarrow> [] | Some ps \<Rightarrow> ps)"
  by (simp add: search_term_def dom_search_postings split: option.split)

lemma distinct_search_term:
  "distinct (map fst res) \<Longrightarrow> distinct (map fst (search_term idx pr res t))"
  by (simp add: search_term_def distinct_search_postings split: option.split)

lemma dict_get_search_terms:
  "dict_get (foldl (search_term idx pr) res ts) p 0
     = dict_get res p 0 + (\<Sum>t\<leftarrow>ts. term_score idx pr p t)"
  by (induction ts arbitrary: res) (simp_all add: dict_get_search_term)

lemma dom_search_terms:
  "fst ` set (foldl (search_term idx pr) res ts)
     = fst ` set res
       \<union> set (concat (map (\<lambda>t. case map_of idx t of None \<Rightarrow> [] | Some ps \<Rightarrow> ps) ts))"
  by (induction ts arbitrary: res) (simp_all add: dom_search_term Un_assoc)

lemma distinct_search_terms:
  "distinct (map fst res) \<Longrightarrow> distinct (map fst (foldl (search_term idx pr) res ts))"
  by (induction ts arbitrary: res) (simp_all add: distinct_search_term)

lemma dict_get_search_results:
  "dict_get (search_results n q idx pr) p 0 = query_score n q idx pr p"
  using dict_get_search_terms[of idx pr "[]" "map n (split q)" p]
  by (simp add: search_results_def query_score_def dict_get_def)

lemma dom_search_results:
  "fst ` set (search_results n q idx pr) = matched_documents n q idx"
  by (simp add: search_results_def matched_documents_def dom_search_terms)

lemma distinct_search_results: "distinct (map fst (search_results n q idx pr))"
  by (simp add: search_results_def distinct_search_terms)

lemma set_search:
  "set (search n q idx pr) = {e \<in> set (search_results n q idx pr). 0 < snd e}"
  by (simp add: search_def Let_def)

lemma distinct_fst_sort_key:
  assumes "distinct (map fst xs)"
  shows "distinct (map fst (sort_key f xs))"
proof -
  have "distinct xs" and "inj_on fst (set xs)"
    using assms by (simp_all add: distinct_map)
  then have "distinct (sort_key f xs)" and "inj_on fst (set (sort_key f xs))"
    by simp_all
  then show ?thesis by (simp add: distinct_map)
qed

lemma distinct_search: "distinct (map fst (search n q idx pr))"
proof -
  have "distinct (map fst (filter (\<lambda>x. 0 < snd x) (search_results n q idx pr)))"
    using distinct_search_results[of n q idx pr] by (rule distinct_map_filter)
  then show ?thesis
    unfolding search_def Let_def by (rule distinct_fst_sort_key)
qed

lemma sorted_search: "sorted_wrt (\<lambda>x y. snd y \<le> snd x) (search n q idx pr)"
proof -
  have "sorted (map (\<lambda>x. - snd x) (search n q idx pr))"
    unfolding search_def Let_def by (rule sorted_sort_key)
  then show ?thesis by (simp add: sorted_map)
qed

lemma search_entry_score:
  assumes "(p, s) \<in> set (search n q idx pr)"
  shows "s = query_score n q idx pr p"
proof -
  have "(p, s) \<in> set (search_results n q idx pr)"
    using assms by (simp add: set_search)
  then have "map_of (search_results n q idx pr) p = Some s"
    using distinct_search_results[of n q idx pr] by simp
  then have "dict_get (search_results n q idx pr) p 0 = s"
    by (simp add: dict_get_def)
  then show ?thesis by (simp add: dict_get_search_results)
qed

lemma search_results_entry:
  "(p, s) \<in> set (search_results n q idx pr)
     \<longleftrightarrow> p \<in> matched_documents n q idx \<and> s = query_score n q idx pr p"
proof
  assume e: "(p, s) \<in> set (search_results n q idx pr)"
  then have "map_of (search_results n q idx pr) p = Some s"
    using distinct_search_results[of n q idx pr] by simp
  then have "dict_get (search_results n q idx pr) p 0 = s"
    by (simp add: dict_get_def)
  then have "s = query_score n q idx pr p" by (simp add: dict_get_search_results)
  moreover have "p \<in> matched_documents n q idx"
    using e dom_search_results[of n q idx pr] by force
  ultimately show "p \<in> matched_documents n q idx \<and> s = query_score n q idx pr p" by simp
next
  assume a: "p \<in> matched_documents n q idx \<and> s = query_score n q idx pr p"
  then have "p \<in> fst ` set (search_results n q idx pr)" by (simp add: dom_search_results)
  then obtain s' where s': "(p, s') \<in> set (search_results n q idx pr)" by auto
  then have "map_of (search_results n q idx pr) p = Some s'"
    using distinct_search_results[of n q idx pr] by simp
  then have "dict_get (search_results n q idx pr) p 0 = s'"
    by (simp add: dict_get_def)
  then have "s' = s" using a by (simp add: dict_get_search_results)
  then show "(p, s) \<in> set (search_results n q idx pr)" using s' by simp
qed

lemma no_match_no_documents:
  assumes "\<forall>term\<in>set (map n (split q)). map_of idx term = None"
  shows "matched_documents n q idx = {}"
  using assms by (auto simp: matched_documents_def)

lemma search_no_documents:
  assumes "matched_documents n q idx = {}"
  shows "search n q idx pr = []"
proof -
  have "fst ` set (search_results n q idx pr) = {}"
    using assms by (simp add: dom_search_results)
  then have "search_results n q idx pr = []" by simp
  then show ?thesis by (simp add: search_def)
qed

section \<open>Claims about the rank engine\<close>

text \<open>
  Claim C2. In the map phase a document that has at least one outgoing link and an entry in
  the current rank table adds its score divided by its number of links to the accumulated
  contribution of each target, once for every occurrence of the target in its link list. A
  document without links, or without an entry in the rank table, leaves the accumulated
  contributions as they are. After the whole phase a target has an entry exactly when some
  contributing document links to it, and the entry is the sum of what the documents added.
\<close>

theorem map_phase_contributions:
  "(links \<noteq> [] \<and> map_of page_ranks p = Some r \<longrightarrow>
      (\<forall>t. dict_get (map_page page_ranks contributions (p, links)) t 0
            = dict_get contributions t 0
              + real (count_list links t) * (r / real (length links))))
   \<and> (links = [] \<or> map_of page_ranks p = None \<longrightarrow>
        map_page page_ranks contributions (p, links) = contributions)
   \<and> map_of (map_page_rank pgs page_ranks) target
       = (if target \<in> receivers pgs page_ranks
          then Some (\<Sum>item\<leftarrow>pgs. contribution page_ranks target item)
          else None)"
proof (intro conjI impI allI)
  fix t
  assume "links \<noteq> [] \<and> map_of page_ranks p = Some r"
  then show "dict_get (map_page page_ranks contributions (p, links)) t 0
      = dict_get contributions t 0 + real (count_list links t) * (r / real (length links))"
    by (simp add: dict_get_map_page contribution_def contributes_def)
next
  assume "links = [] \<or> map_of page_ranks p = None"
  then show "map_page page_ranks contributions (p, links) = contributions"
    by (auto simp: map_page_def)
next
  show "map_of (map_page_rank pgs page_ranks) target
       = (if target \<in> receivers pgs page_ranks
          then Some (\<Sum>item\<leftarrow>pgs. contribution page_ranks target item)
          else None)"
    by (rule map_of_map_page_rank)
qed

theorem map_phase_contributions_witness:
  "(let pgs = [(''a'', [''b'', ''b'', ''c'']), (''d'', []), (''e'', [''b''])];
        page_ranks = [(''a'', 3 / 4), (''d'', 1 / 4)]
    in ([''b'', ''b'', ''c''] \<noteq> [] \<and> map_of page_ranks ''a'' = Some (3 / 4))
       \<and> dict_get (map_page page_ranks [] (''a'', [''b'', ''b'', ''c''])) ''b'' 0 = 1 / 2
       \<and> map_page page_ranks [(''b'', 1 / 2)] (''d'', []) = [(''b'', 1 / 2)]
       \<and> map_page page_ranks [(''b'', 1 / 2)] (''e'', [''b'']) = [(''b'', 1 / 2)]
       \<and> ''b'' \<in> receivers pgs page_ranks
       \<and> map_of (map_page_rank pgs page_ranks) ''b'' = Some (1 / 2)
       \<and> ''e'' \<notin> receivers pgs page_ranks
       \<and> map_of (map_page_rank pgs page_ranks) ''e'' = None)"
proof -
  let ?pgs = "[(''a'', [''b'', ''b'', ''c'']), (''d'', []), (''e'', [''b''])]"
  let ?pr = "[(''a'', 3 / 4), (''d'', 1 / 4 :: real)]"
  have h1: "[''b'', ''b'', ''c''] \<noteq> [] \<and> map_of ?pr ''a'' = Some (3 / 4)" by simp
  have h2: "[] = ([] :: page list) \<or> map_of ?pr ''d'' = None" by simp
  have h3: "[''b''] = [] \<or> map_of ?pr ''e'' = None" by simp
  have rb: "''b'' \<in> receivers ?pgs ?pr" by (simp add: receivers_def contributes_def)
  have re: "''e'' \<notin> receivers ?pgs ?pr" by (simp add: receivers_def contributes_def)
  have c1: "dict_get (map_page ?pr [] (''a'', [''b'', ''b'', ''c''])) ''b'' 0 = 1 / 2"
    using map_phase_contributions[of "[''b'', ''b'', ''c'']" ?pr "''a''" "3 / 4" "[]" ?pgs "''b''",
        THEN conjunct1, rule_format, OF h1, of "''b''"]
    by (simp add: dict_get_def)
  have c2: "map_page ?pr [(''b'', 1 / 2)] (''d'', []) = [(''b'', 1 / 2)]"
    using map_phase_contributions[of "[]" ?pr "''d''" 0 "[(''b'', 1 / 2)]" ?pgs "''b''",
        THEN conjunct2, THEN conjunct1, rule_format, OF h2] .
  have c3: "map_page ?pr [(''b'', 1 / 2)] (''e'', [''b'']) = [(''b'', 1 / 2)]"
    using map_phase_contributions[of "[''b'']" ?pr "''e''" 0 "[(''b'', 1 / 2)]" ?pgs "''b''",
        THEN conjunct2, THEN conjunct1, rule_format, OF h3] .
  have c4: "map_of (map_page_rank ?pgs ?pr) ''b'' = Some (1 / 2)"
    using map_phase_contributions[of "[]" ?pr "''d''" 0 "[]" ?pgs "''b''",
        THEN conjunct2, THEN conjunct2] rb
    by (simp add: contribution_def contributes_def)
  have c5: "map_of (map_page_rank ?pgs ?pr) ''e'' = None"
    using map_phase_contributions[of "[]" ?pr "''d''" 0 "[]" ?pgs "''e''",
        THEN conjunct2, THEN conjunct2] re
    by simp
  show ?thesis
    unfolding Let_def using h1 c1 c2 c3 rb c4 re c5 by blast
qed

text \<open>
  Claim C3. With an iteration count of 0 the rank computation returns the initial table:
  it has an entry for every node of the all-nodes set and for every link target, and every
  entry is 1/N, where N is the size of the all-nodes set, or 1 when that set is empty.
\<close>

theorem zero_iterations_uniform:
  "calculate_page_rank pgs links_set 0 = Inr (initialize_page_ranks pgs links_set)
   \<and> (\<forall>p. map_of (initialize_page_ranks pgs links_set) p
        = (if p \<in> set links_set \<union> link_targets pgs
           then Some (1 / real (if links_set = [] then 1 else length links_set))
           else None))"
  using map_of_initialize[of pgs links_set]
  by (simp add: calculate_page_rank_def initial_share_def)

theorem zero_iterations_uniform_witness:
  "calculate_page_rank [(''a'', [''b'']), (''b'', [])] [''a'', ''b''] 0
     = Inr [(''a'', 1 / 2), (''b'', 1 / 2)]
   \<and> map_of (initialize_page_ranks [(''a'', [''b'']), (''b'', [])] [''a'', ''b'']) ''b''
       = Some (1 / 2)
   \<and> map_of (initialize_page_ranks [(''a'', [''b'']), (''b'', [])] [''a'', ''b'']) ''c'' = None
   \<and> map_of (initialize_page_ranks [(''a'', [''b''])] []) ''b'' = Some 1"
proof -
  let ?pgs = "[(''a'', [''b'']), (''b'', [])]"
  let ?ls = "[''a'', ''b'']"
  note z = zero_iterations_uniform[of ?pgs ?ls]
  have i: "initialize_page_ranks ?pgs ?ls = [(''a'', 1 / 2), (''b'', 1 / 2)]"
    by (simp add: initialize_page_ranks_def init_link_def)
  have a: "calculate_page_rank ?pgs ?ls 0 = Inr [(''a'', 1 / 2), (''b'', 1 / 2)]"
    using z i by simp
  have b: "map_of (initialize_page_ranks ?pgs ?ls) ''b'' = Some (1 / 2)"
    using conjunct2[OF z, rule_format, of "''b''"] by (simp add: link_targets_def)
  have c: "map_of (initialize_page_ranks ?pgs ?ls) ''c'' = None"
    using conjunct2[OF z, rule_format, of "''c''"] by (simp add: link_targets_def)
  have d: "map_of (initialize_page_ranks [(''a'', [''b''])] []) ''b'' = Some 1"
    using conjunct2[OF zero_iterations_uniform[of "[(''a'', [''b''])]" "[]"], rule_format, of "''b''"]
    by (simp add: link_targets_def)
  show ?thesis using a b c d by blast
qed

text \<open>
  Claim C1. In every iteration the table that the reduce phase produces has exactly the
  nodes that received a contribution in the map phase of that iteration, and gives each of
  them (1 - 0.85) / N + 0.85 * (its accumulated contribution), where N is the number of
  entries of the initial table. A node that received nothing has no entry in the new
  table, whatever its score was before. The reduce phase raises no error.
\<close>

theorem reduce_phase_table:
  "\<exists>prev new.
     calculate_page_rank pgs links_set (int k) = Inr prev
     \<and> reduce_page_rank (map_page_rank pgs prev) 0.85
          (length (initialize_page_ranks pgs links_set)) = Inr new
     \<and> calculate_page_rank pgs links_set (int k + 1) = Inr new
     \<and> fst ` set new = fst ` set (map_page_rank pgs prev)
     \<and> (\<forall>t. map_of new t =
          (case map_of (map_page_rank pgs prev) t of
             None \<Rightarrow> None
           | Some c \<Rightarrow> Some ((1 - 0.85) / real (length (initialize_page_ranks pgs links_set))
                          + 0.85 * c)))"
  using reduce_phase_default[of pgs links_set k] unfolding default_damping_factor_def .

theorem reduce_phase_table_witness:
  "calculate_page_rank [(''a'', [''b'']), (''b'', [])] [''a'', ''b''] 0
     = Inr [(''a'', 1 / 2), (''b'', 1 / 2)]
   \<and> map_page_rank [(''a'', [''b'']), (''b'', [])] [(''a'', 1 / 2), (''b'', 1 / 2)]
       = [(''b'', 1 / 2)]
   \<and> calculate_page_rank [(''a'', [''b'']), (''b'', [])] [''a'', ''b''] 1
       = Inr [(''b'', (1 - 0.85) / 2 + 0.85 * (1 / 2))]"
proof -
  let ?pgs = "[(''a'', [''b'']), (''b'', [])]"
  let ?ls = "[''a'', ''b'']"
  obtain prev new where
    p: "calculate_page_rank ?pgs ?ls (int 0) = Inr prev" and
    r: "reduce_page_rank (map_page_rank ?pgs prev) 0.85
          (length (initialize_page_ranks ?pgs ?ls)) = Inr new" and
    n: "calculate_page_rank ?pgs ?ls (int 0 + 1) = Inr new"
    using reduce_phase_table[of ?pgs ?ls 0] by blast
  have c0: "calculate_page_rank ?pgs ?ls 0 = Inr [(''a'', 1 / 2), (''b'', 1 / 2)]"
    by code_simp
  have m: "map_page_rank ?pgs [(''a'', 1 / 2), (''b'', 1 / 2)] = [(''b'', 1 / 2)]"
    by code_simp
  have l: "length (initialize_page_ranks ?pgs ?ls) = 2"
    by code_simp
  have "prev = [(''a'', 1 / 2), (''b'', 1 / 2)]" using p c0 by simp
  then have "reduce_page_rank [(''b'', 1 / 2)] 0.85 2 = Inr new"
    using r m l by simp
  moreover have "reduce_page_rank [(''b'', 1 / 2)] 0.85 2
      = Inr [(''b'', (1 - 0.85) / 2 + 0.85 * (1 / 2))]"
    by (simp add: reduce_page_rank_def)
  ultimately have "new = [(''b'', (1 - 0.85) / 2 + 0.85 * (1 / 2))]" by simp
  then have "calculate_page_rank ?pgs ?ls 1 = Inr [(''b'', (1 - 0.85) / 2 + 0.85 * (1 / 2))]"
    using n by simp
  with c0 m show ?thesis by blast
qed

text \<open>
  Claim C5, refuted as stated. The spec says that a node that has a score after the
  initialisation keeps an entry after every iteration. In the graph with the documents
  \<^verbatim>\<open>a\<close> and \<^verbatim>\<open>b\<close>, where \<^verbatim>\<open>a\<close> links to \<^verbatim>\<open>b\<close> and \<^verbatim>\<open>b\<close> links to nothing, both nodes start
  with 1/2; after one iteration \<^verbatim>\<open>a\<close> has no entry, and after two iterations the table is
  empty.
\<close>

theorem node_kept_counterexample:
  "map_of (initialize_page_ranks [(''a'', [''b'']), (''b'', [])] [''a'', ''b'']) ''a''
     = Some (1 / 2)
   \<and> calculate_page_rank [(''a'', [''b'']), (''b'', [])] [''a'', ''b''] 1
       = Inr [(''b'', 1 / 2)]
   \<and> map_of [(''b'', 1 / 2 :: real)] ''a'' = None
   \<and> calculate_page_rank [(''a'', [''b'']), (''b'', [])] [''a'', ''b''] 2 = Inr []"
  by code_simp

text \<open>
  Claim C5, amended. A node has an entry after an iteration exactly when some document
  that has an entry before the iteration links to it; every other node is dropped,
  whatever its score was. No iteration adds a node: the nodes of the table after an
  iteration are among the nodes of the table before it.
\<close>

theorem node_kept_iff_linked:
  "\<exists>prev new.
     calculate_page_rank pgs links_set (int k) = Inr prev
     \<and> calculate_page_rank pgs links_set (int k + 1) = Inr new
     \<and> (\<forall>p. p \<in> fst ` set new \<longleftrightarrow>
              (\<exists>item\<in>set pgs. fst item \<in> fst ` set prev \<and> p \<in> set (snd item)))
     \<and> fst ` set new \<subseteq> fst ` set prev"
proof -
  let ?n = "length (initialize_page_ranks pgs links_set)"
  let ?prev = "(rank_step pgs ?n ^^ k) (initialize_page_ranks pgs links_set)"
  let ?new = "rank_step pgs ?n ?prev"
  have a: "calculate_page_rank pgs links_set (int k) = Inr ?prev"
    by (simp add: calculate_page_rank_closed)
  have b: "calculate_page_rank pgs links_set (int k + 1) = Inr ?new"
    by (rule calculate_page_rank_Suc)
  have c: "\<forall>p. p \<in> fst ` set ?new \<longleftrightarrow>
              (\<exists>item\<in>set pgs. fst item \<in> fst ` set ?prev \<and> p \<in> set (snd item))"
    by (intro allI) (simp only: dom_rank_step receivers_iff)
  have d: "fst ` set ?new \<subseteq> fst ` set ?prev"
    using dom_funpow_decreasing[where pgs = pgs and n = ?n and k = k and ls = links_set]
    by (simp only: funpow.simps o_apply)
  from a b c d show ?thesis by blast
qed

theorem node_kept_iff_linked_witness:
  "calculate_page_rank [(''a'', [''b'']), (''b'', [])] [''a'', ''b''] 0
     = Inr [(''a'', 1 / 2), (''b'', 1 / 2)]
   \<and> calculate_page_rank [(''a'', [''b'']), (''b'', [])] [''a'', ''b''] 1
       = Inr [(''b'', 1 / 2)]
   \<and> ''b'' \<in> fst ` set [(''b'', 1 / 2 :: real)]
   \<and> ''a'' \<notin> fst ` set [(''b'', 1 / 2 :: real)]"
proof -
  let ?pgs = "[(''a'', [''b'']), (''b'', [])]"
  let ?ls = "[''a'', ''b'']"
  obtain prev new where
    p: "calculate_page_rank ?pgs ?ls (int 0) = Inr prev" and
    n: "calculate_page_rank ?pgs ?ls (int 0 + 1) = Inr new" and
    s: "fst ` set new \<subseteq> fst ` set prev"
    using node_kept_iff_linked[of ?pgs ?ls 0] by (elim exE conjE)
  have c0: "calculate_page_rank ?pgs ?ls 0 = Inr [(''a'', 1 / 2), (''b'', 1 / 2)]"
    by code_simp
  have c1: "calculate_page_rank ?pgs ?ls 1 = Inr [(''b'', 1 / 2)]"
    by code_simp
  have pv: "prev = [(''a'', 1 / 2), (''b'', 1 / 2)]" using p c0 by simp
  have nw: "new = [(''b'', 1 / 2)]" using n c1 by simp
  have c1': "calculate_page_rank ?pgs ?ls 1 = Inr [(''b'', 1 / 2)]"
    using n nw by simp
  have kb: "''b'' \<in> fst ` set [(''b'', 1 / 2 :: real)]" by simp
  have ka: "''a'' \<notin> fst ` set [(''b'', 1 / 2 :: real)]" by simp
  from c0 c1' kb ka show ?thesis by (intro conjI)
qed

text \<open>
  Claim C8. In the graph that consists of one node with one link to itself the rank
  computation gives that node the score (1 - 0.85) / 1 + 0.85 * 1 = 1 after the first
  iteration and after every later one.
\<close>

theorem single_self_link:
  "1 \<le> k \<Longrightarrow>
   calculate_page_rank [(a, [a])] [a] k = Inr [(a, (1 - 0.85) / 1 + 0.85 * 1)]
   \<and> calculate_page_rank [(a, [a])] [a] k = Inr [(a, 1)]"
  by (simp add: calculate_page_rank_closed self_link_initialize self_link_funpow)

theorem single_self_link_witness:
  "(1::int) \<le> 3
   \<and> calculate_page_rank [(''index.html'', [''index.html''])] [''index.html''] 3
       = Inr [(''index.html'', 1)]"
proof -
  have h: "(1::int) \<le> 3" by simp
  show ?thesis using h single_self_link[OF h, of "''index.html''"] by simp
qed

text \<open>
  Claim C9. For every graph, every all-nodes set and every iteration count the rank
  computation returns a table, and no score in it is negative. This covers the initial
  table (iteration count 0) and the table after every iteration.
\<close>

theorem scores_nonnegative:
  "\<exists>table. calculate_page_rank pgs links_set k = Inr table \<and> (\<forall>e\<in>set table. 0 \<le> snd e)"
proof -
  have "nonneg ((rank_step pgs (length (initialize_page_ranks pgs links_set)) ^^ nat k)
                  (initialize_page_ranks pgs links_set))"
    by (rule nonneg_funpow[OF nonneg_initialize])
  then show ?thesis
    by (simp add: calculate_page_rank_closed nonneg_def)
qed

theorem scores_nonnegative_witness:
  "calculate_page_rank [(''a'', [''b'', ''b'', ''c'']), (''b'', [''a''])] [''a'', ''b'', ''c''] 2
     = Inr [(''b'', 43 / 180), (''c'', 13 / 90), (''a'', 911 / 3600)]
   \<and> (0::real) \<le> 43 / 180 \<and> (0::real) \<le> 13 / 90 \<and> (0::real) \<le> 911 / 3600"
proof -
  let ?pgs = "[(''a'', [''b'', ''b'', ''c'']), (''b'', [''a''])]"
  let ?ls = "[''a'', ''b'', ''c'']"
  obtain t where t: "calculate_page_rank ?pgs ?ls 2 = Inr t" and nn: "\<forall>e\<in>set t. 0 \<le> snd e"
    using scores_nonnegative[of ?pgs ?ls 2] by blast
  have c: "calculate_page_rank ?pgs ?ls 2
     = Inr [(''b'', 43 / 180), (''c'', 13 / 90), (''a'', 911 / 3600)]"
    by code_simp
  then have "t = [(''b'', 43 / 180), (''c'', 13 / 90), (''a'', 911 / 3600)]" using t by simp
  then show ?thesis using nn c by simp
qed

section \<open>Claims about the graph builder\<close>

text \<open>
  Claim C4, refuted as stated. The spec says that the set of node identifiers returned by
  the graph builder holds every document identifier. For the corpus of two files \<^verbatim>\<open>a.html\<close>,
  which links to \<^verbatim>\<open>b.html\<close>, and \<^verbatim>\<open>b.html\<close>, which has no link, the returned set is
  \<^verbatim>\<open>{b.html}\<close>: the document \<^verbatim>\<open>a.html\<close> is not in it.
\<close>

theorem all_nodes_counterexample:
  "pages (read_html_files
      [\<lparr>page_name = ''a.html'', body_text = ''A'', hrefs = [''b.html'']\<rparr>,
       \<lparr>page_name = ''b.html'', body_text = ''B'', hrefs = []\<rparr>])
     = [(''a.html'', [''b.html'']), (''b.html'', [])]
   \<and> all_links (read_html_files
      [\<lparr>page_name = ''a.html'', body_text = ''A'', hrefs = [''b.html'']\<rparr>,
       \<lparr>page_name = ''b.html'', body_text = ''B'', hrefs = []\<rparr>])
     = [''b.html'']
   \<and> ''a.html'' \<notin> set [''b.html'']"
  by (simp add: read_html_files_def read_file_def set_update_def set_add_def)

text \<open>
  Claim C4, amended. The set of node identifiers returned by the graph builder is the set
  of all identifiers that occur as a link target in some document, without repetition. A
  document identifier is in the set exactly when some document of the corpus links to it.
\<close>

theorem all_links_link_targets:
  "set (all_links (read_html_files files)) = set (concat (map hrefs files))
   \<and> distinct (all_links (read_html_files files))
   \<and> (\<forall>f\<in>set files. page_name f \<in> set (all_links (read_html_files files))
          \<longleftrightarrow> (\<exists>g\<in>set files. page_name f \<in> set (hrefs g)))"
proof -
  have a: "set (all_links (read_html_files files)) = set (concat (map hrefs files))"
    by (simp add: read_html_files_def all_links_foldl)
  have b: "distinct (all_links (read_html_files files))"
    unfolding read_html_files_def by (rule distinct_all_links_foldl) simp
  have c: "\<forall>f\<in>set files. page_name f \<in> set (all_links (read_html_files files))
          \<longleftrightarrow> (\<exists>g\<in>set files. page_name f \<in> set (hrefs g))"
    unfolding a by auto
  from a b c show ?thesis by (intro conjI)
qed

theorem all_links_link_targets_witness:
  "all_links (read_html_files
      [\<lparr>page_name = ''a.html'', body_text = ''A'', hrefs = [''b.html'', ''c.html'', ''b.html'']\<rparr>,
       \<lparr>page_name = ''b.html'', body_text = ''B'', hrefs = [''c.html'']\<rparr>])
     = [''b.html'', ''c.html'']
   \<and> set [''b.html'', ''c.html'']
       = set (concat (map hrefs
          [\<lparr>page_name = ''a.html'', body_text = ''A'', hrefs = [''b.html'', ''c.html'', ''b.html'']\<rparr>,
           \<lparr>page_name = ''b.html'', body_text = ''B'', hrefs = [''c.html'']\<rparr>]))
   \<and> distinct [''b.html'', ''c.html'']"
proof -
  let ?files = "[\<lparr>page_name = ''a.html'', body_text = ''A'', hrefs = [''b.html'', ''c.html'', ''b.html'']\<rparr>,
       \<lparr>page_name = ''b.html'', body_text = ''B'', hrefs = [''c.html'']\<rparr>]"
  have e: "all_links (read_html_files ?files) = [''b.html'', ''c.html'']"
    by (simp add: read_html_files_def read_file_def set_update_def set_add_def)
  have s: "set (all_links (read_html_files ?files)) = set (concat (map hrefs ?files))"
    using all_links_link_targets[of ?files] by (rule conjunct1)
  have d: "distinct (all_links (read_html_files ?files))"
    using all_links_link_targets[of ?files] by (elim conjE)
  from e s d show ?thesis by (simp only:) 
qed

section \<open>Claims about the query engine\<close>

text \<open>
  Claim C6, refuted as stated. The spec says that the score of a returned document sums
  its rank over the distinct query terms, so that repeating a term in the query changes
  nothing. For the query \<^verbatim>\<open>rank Rank\<close>, the index \<^verbatim>\<open>{rank: [doc1]}\<close> and the rank 1/2 of
  \<^verbatim>\<open>doc1\<close>, the sum over the distinct terms is 1/2, and the program returns the score 1.
\<close>

theorem repeated_term_counterexample:
  "search normalize_ascii ''rank Rank'' [(''rank'', [''doc1''])] [(''doc1'', 1 / 2)]
     = [(''doc1'', 1)]
   \<and> distinct_query_score normalize_ascii ''rank Rank'' [(''rank'', [''doc1''])]
        [(''doc1'', 1 / 2)] ''doc1'' = 1 / 2"
  by code_simp

text \<open>
  Claim C6, amended. The score of each document returned by search is the sum, over the
  normalised query terms in the order and number in which the query has them, of the rank
  of the document added once for every occurrence of the document in the posting list of
  the term; a term that is not in the index adds nothing, and the rank of a document
  without an entry in the rank table counts as 0. A term that occurs several times in the
  query is counted that many times.
\<close>

theorem search_score_sum:
  "(p, s) \<in> set (search normalise query inverted_index page_ranks) \<Longrightarrow>
   s = (\<Sum>term\<leftarrow>map normalise (split query).
          case map_of inverted_index term of
            None \<Rightarrow> 0
          | Some postings \<Rightarrow> real (count_list postings p) * dict_get page_ranks p 0)"
  using search_entry_score[of p s normalise query inverted_index page_ranks]
  by (simp add: query_score_def term_score_def)

theorem search_score_sum_witness:
  "(''doc1'', 6 / 5) \<in> set (search normalize_ascii ''Search engine''
        [(''search'', [''doc1'', ''doc2'']), (''engine'', [''doc1''])]
        [(''doc1'', 6 / 10), (''doc2'', 3 / 10)])
   \<and> (6 / 5 :: real) = 1 * (6 / 10) + 1 * (6 / 10)"
proof -
  let ?idx = "[(''search'', [''doc1'', ''doc2'']), (''engine'', [''doc1''])]"
  let ?pr = "[(''doc1'', 6 / 10 :: real), (''doc2'', 3 / 10)]"
  have e: "search normalize_ascii ''Search engine'' ?idx ?pr
             = [(''doc1'', 6 / 5), (''doc2'', 3 / 10)]"
    by code_simp
  have h: "(''doc1'', 6 / 5) \<in> set (search normalize_ascii ''Search engine'' ?idx ?pr)"
    unfolding e by simp
  have t: "map normalize_ascii (split ''Search engine'') = [''search'', ''engine'']"
    by code_simp
  have "(6 / 5 :: real) = 1 * (6 / 10) + 1 * (6 / 10)"
    using search_score_sum[OF h] unfolding t by (simp add: dict_get_def)
  with h show ?thesis by (rule conjI)
qed

text \<open>
  Claim C7. The list returned by search holds exactly the pairs of a matched document (a
  document in the posting list of a query term that is in the index) and its accumulated
  total, for the documents whose total is greater than 0, in descending order of the
  total. An empty query gives the empty list, and so does a query none of whose terms is
  in the index.
\<close>

theorem search_filtered_sorted:
  "(\<forall>p s. (p, s) \<in> set (search normalise query inverted_index page_ranks)
        \<longleftrightarrow> p \<in> matched_documents normalise query inverted_index
            \<and> s = query_score normalise query inverted_index page_ranks p
            \<and> 0 < s)
   \<and> sorted_wrt (\<lambda>x y. snd y \<le> snd x) (search normalise query inverted_index page_ranks)
   \<and> search normalise '''' inverted_index page_ranks = []
   \<and> ((\<forall>term\<in>set (map normalise (split query)). map_of inverted_index term = None)
        \<longrightarrow> search normalise query inverted_index page_ranks = [])"
proof (intro conjI allI impI)
  fix p s
  show "(p, s) \<in> set (search normalise query inverted_index page_ranks)
        \<longleftrightarrow> p \<in> matched_documents normalise query inverted_index
            \<and> s = query_score normalise query inverted_index page_ranks p
            \<and> 0 < s"
    by (simp add: set_search search_results_entry)
next
  show "sorted_wrt (\<lambda>x y. snd y \<le> snd x) (search normalise query inverted_index page_ranks)"
    by (rule sorted_search)
next
  show "search normalise '''' inverted_index page_ranks = []"
    by (simp add: search_def search_results_def split_def)
next
  assume "\<forall>term\<in>set (map normalise (split query)). map_of inverted_index term = None"
  then show "search normalise query inverted_index page_ranks = []"
    by (intro search_no_documents no_match_no_documents)
qed


theorem search_filtered_sorted_witness:
  "search normalize_ascii ''Search engine''
      [(''search'', [''doc1'', ''doc2'', ''doc3'']), (''engine'', [''doc1''])]
      [(''doc2'', 3 / 10), (''doc1'', 6 / 10)]
     = [(''doc1'', 6 / 5), (''doc2'', 3 / 10)]
   \<and> sorted_wrt (\<lambda>x y. snd y \<le> snd x) [(''doc1'', 6 / 5 :: real), (''doc2'', 3 / 10)]
   \<and> ''doc3'' \<in> matched_documents normalize_ascii ''Search engine''
        [(''search'', [''doc1'', ''doc2'', ''doc3'']), (''engine'', [''doc1''])]
   \<and> (''doc3'', 0) \<notin> set (search normalize_ascii ''Search engine''
        [(''search'', [''doc1'', ''doc2'', ''doc3'']), (''engine'', [''doc1''])]
        [(''doc2'', 3 / 10), (''doc1'', 6 / 10)])
   \<and> map normalize_ascii (split ''Zebra'') = [''zebra'']
   \<and> map_of [(''search'', [''doc1'', ''doc2'', ''doc3'']), (''engine'', [''doc1''])] ''zebra''
       = None
   \<and> search normalize_ascii ''Zebra''
        [(''search'', [''doc1'', ''doc2'', ''doc3'']), (''engine'', [''doc1''])]
        [(''doc2'', 3 / 10), (''doc1'', 6 / 10)] = []"
proof -
  let ?idx = "[(''search'', [''doc1'', ''doc2'', ''doc3'']), (''engine'', [''doc1''])]"
  let ?pr = "[(''doc2'', 3 / 10 :: real), (''doc1'', 6 / 10)]"
  note w = search_filtered_sorted[of normalize_ascii "''Search engine''" ?idx ?pr]
  note z = search_filtered_sorted[of normalize_ascii "''Zebra''" ?idx ?pr]
  have e: "search normalize_ascii ''Search engine'' ?idx ?pr
             = [(''doc1'', 6 / 5), (''doc2'', 3 / 10)]"
    by code_simp
  have srt: "sorted_wrt (\<lambda>x y. snd y \<le> snd x) (search normalize_ascii ''Search engine'' ?idx ?pr)"
    using w by (elim conjE)
  have m: "''doc3'' \<in> matched_documents normalize_ascii ''Search engine'' ?idx"
    by code_simp
  have d3: "(''doc3'', 0) \<notin> set (search normalize_ascii ''Search engine'' ?idx ?pr)"
    using w[THEN conjunct1, rule_format, of "''doc3''" 0] by simp
  have t: "map normalize_ascii (split ''Zebra'') = [''zebra'']"
    by code_simp
  have n: "map_of ?idx ''zebra'' = None"
    by simp
  have h: "\<forall>term\<in>set (map normalize_ascii (split ''Zebra'')). map_of ?idx term = None"
    unfolding t using n by simp
  have none: "search normalize_ascii ''Zebra'' ?idx ?pr = []"
    using z[THEN conjunct2, THEN conjunct2, THEN conjunct2, THEN mp, OF h] .
  from e srt[unfolded e] m d3 t n none show ?thesis by (intro conjI)
qed

text \<open>
  Claim C10. Each document identifier occurs at most once in the list returned by search,
  also when the document is in the posting lists of several query terms or several times
  in one posting list: the totals are accumulated per document in a dictionary before the
  list is built.
\<close>

theorem search_documents_distinct:
  "distinct (map fst (search normalise query inverted_index page_ranks))"
  by (rule distinct_search)

theorem search_documents_distinct_witness:
  "search normalize_ascii ''a b A''
      [(''a'', [''doc1'', ''doc1'', ''doc2'']), (''b'', [''doc1''])]
      [(''doc1'', 1 / 4), (''doc2'', 1 / 2)]
     = [(''doc1'', 5 / 4), (''doc2'', 1)]
   \<and> distinct [''doc1'', ''doc2'']"
proof -
  let ?idx = "[(''a'', [''doc1'', ''doc1'', ''doc2'']), (''b'', [''doc1''])]"
  let ?pr = "[(''doc1'', 1 / 4 :: real), (''doc2'', 1 / 2)]"
  have e: "search normalize_ascii ''a b A'' ?idx ?pr = [(''doc1'', 5 / 4), (''doc2'', 1)]"
    by code_simp
  have "distinct (map fst (search normalize_ascii ''a b A'' ?idx ?pr))"
    by (rule search_documents_distinct)
  then have "distinct [''doc1'', ''doc2'']" unfolding e by simp
  with e show ?thesis by (rule conjI)
qed

end
